theory Spec2Isabelle
  imports
    Main
    "HOL-Library.Word"
    "HOL-Library.Multiset"
    "HOL-Library.Char_ord"
    "HOL-Library.List_Lexorder"
    "HOL-Library.AList"
begin

section \<open>The dynamic endpoint pool of kit.go: packages sd and sd/lb\<close>

text \<open>
  Go strings are byte sequences compared bytewise; \<open>string\<close> is a list of 8-bit
  characters, ordered by \<open>Char_ord\<close> on the byte value and lexicographically by
  \<open>List_Lexorder\<close>, which is the order \<open>sort.Strings\<close> sorts by.
  A Go slice is a list, the nil slice being the empty list. A value of the interface type
  \<open>error\<close> is an \<open>error option\<close>, \<open>None\<close> being nil.
\<close>

subsection \<open>Data model\<close>

text \<open>
  Errors. \<open>ErrNoEndpoints\<close> is the variable of that name in package lb,
  \<open>DeadlineExceeded\<close> is \<open>context.DeadlineExceeded\<close>, \<open>ErrorString\<close> is a value made
  by \<open>errors.New\<close>, and \<open>RetryError\<close> holds the final error and the raw errors of the
  attempts.
\<close>

datatype error =
    ErrNoEndpoints
  | DeadlineExceeded
  | ErrorString string
  | RetryError error "error list"

text \<open>
  Modelled from the spec: the type \<open>Event\<close> of package sd, whose declaration is not among
  the sources; \<open>endpointCache.Update\<close> reads its fields \<open>Instances\<close> and \<open>Err\<close>, and the
  spec gives a discovery event as an instance collection and an optional error.
\<close>

record event =
  Instances :: "string list"
  Err :: "error option"

text \<open>\<open>endpointerOptions\<close>; a \<open>time.Duration\<close> is a number of nanoseconds.\<close>

record endpointerOptions =
  invalidateOnError :: bool
  invalidateTimeout :: int

text \<open>
  \<open>endpointCloser\<close>: an endpoint of type \<open>'e\<close> and an \<open>io.Closer\<close> of type \<open>'c\<close>
  that may be nil.
\<close>

type_synonym ('e, 'c) endpointCloser = "'e \<times> 'c option"

text \<open>
  What one call of a \<open>Factory\<close> returns: the endpoint, the closer and the error.
  A factory is a Go function value and may keep state, so the model hands it the
  instances it was called with before.
\<close>

type_synonym ('e, 'c) factory = "string list \<Rightarrow> string \<Rightarrow> 'e \<times> 'c option \<times> error option"

text \<open>
  \<open>endpointCache\<close>. The Go map \<open>cache\<close> is an association list read by \<open>map_of\<close>,
  written by \<open>AList.update\<close> and \<open>AList.delete\<close>; a point in time is a number of
  nanoseconds. The mutex and the logger are not fields of the model: every function
  below is one critical section, and the log lines go to the effects.
\<close>

record ('e, 'c) endpointCache =
  options :: endpointerOptions
  factory :: "('e, 'c) factory"
  cache :: "(string \<times> ('e, 'c) endpointCloser) list"
  err :: "error option"
  endpoints :: "'e list"
  invalidateDeadline :: int

text \<open>
  The effects of the cache on the outside: the instances the factory was called with, in
  order; the calls of \<open>Close\<close>, each with the key of the entry and its closer, as a multiset
  since Go ranges over a map in no fixed order; and the lines given to the logger.
\<close>

datatype logline = LogErr error | LogInstanceErr string error

record 'c effects =
  factoryCalls :: "string list"
  closeCalls :: "(string \<times> 'c) multiset"
  logLines :: "logline list"


subsection \<open>updateCache\<close>

text \<open>
  The first loop of \<open>updateCache\<close>, over the sorted instances. The state is the old map
  \<open>c.cache\<close>, from which carried-over keys are deleted, the new map under construction,
  and the effects.
\<close>

fun produce ::
  "('e, 'c) factory \<Rightarrow> string list \<Rightarrow>
   (string \<times> ('e, 'c) endpointCloser) list \<Rightarrow> (string \<times> ('e, 'c) endpointCloser) list \<Rightarrow>
   'c effects \<Rightarrow>
   (string \<times> ('e, 'c) endpointCloser) list \<times> (string \<times> ('e, 'c) endpointCloser) list \<times>
   'c effects" where
  "produce f [] old new w = (old, new, w)"
| "produce f (instance # rest) old new w =
     (case map_of old instance of
        Some sc \<Rightarrow> produce f rest (AList.delete instance old) (AList.update instance sc new) w
      | None \<Rightarrow>
          (case f (factoryCalls w) instance of
             (service, closer, ferr) \<Rightarrow>
               (let w1 = w\<lparr>factoryCalls := factoryCalls w @ [instance]\<rparr> in
                case ferr of
                  Some e \<Rightarrow>
                    produce f rest old new
                      (w1\<lparr>logLines := logLines w1 @ [LogInstanceErr instance e]\<rparr>)
                | None \<Rightarrow>
                    produce f rest old (AList.update instance (service, closer) new) w1)))"

text \<open>The second loop: the closers of the leftover entries that are not nil.\<close>

fun leftoverClosers :: "(string \<times> ('e, 'c) endpointCloser) list \<Rightarrow> (string \<times> 'c) list" where
  "leftoverClosers [] = []"
| "leftoverClosers ((k, (e, None)) # rest) = leftoverClosers rest"
| "leftoverClosers ((k, (e, Some cl)) # rest) = (k, cl) # leftoverClosers rest"

definition closeLeftover ::
  "(string \<times> ('e, 'c) endpointCloser) list \<Rightarrow> 'c effects \<Rightarrow> 'c effects" where
  "closeLeftover old w = w\<lparr>closeCalls := closeCalls w + mset (leftoverClosers old)\<rparr>"

text \<open>The third loop: the endpoints of the instances that are in the new map.\<close>

fun populate :: "(string \<times> ('e, 'c) endpointCloser) list \<Rightarrow> string list \<Rightarrow> 'e list" where
  "populate new [] = []"
| "populate new (instance # rest) =
     (case map_of new instance of
        None \<Rightarrow> populate new rest
      | Some sc \<Rightarrow> fst sc # populate new rest)"

text \<open>
  \<open>updateCache\<close> up to and without its last two assignments: the cache with \<open>c.cache\<close>
  reduced to the leftover entries, the effects after the closes, the new map, the new
  slice of endpoints, and the caller's slice of instances as \<open>sort.Strings\<close> left it.
\<close>

definition updateCache_closed ::
  "('e, 'c) endpointCache \<Rightarrow> 'c effects \<Rightarrow> string list \<Rightarrow>
   ('e, 'c) endpointCache \<times> 'c effects \<times> (string \<times> ('e, 'c) endpointCloser) list \<times>
   'e list \<times> string list" where
  "updateCache_closed c w instances =
     (let insts = sort instances in
      case produce (factory c) insts (cache c) [] w of
        (old, new, w1) \<Rightarrow>
          (c\<lparr>cache := old\<rparr>, closeLeftover old w1, new, populate new insts, insts))"

definition updateCache ::
  "('e, 'c) endpointCache \<Rightarrow> 'c effects \<Rightarrow> string list \<Rightarrow>
   ('e, 'c) endpointCache \<times> 'c effects \<times> string list" where
  "updateCache c w instances =
     (case updateCache_closed c w instances of
        (c1, w1, new, eps, insts) \<Rightarrow> (c1\<lparr>endpoints := eps, cache := new\<rparr>, w1, insts))"

subsection \<open>Update and Endpoints\<close>

text \<open>
  \<open>Update\<close>; \<open>now\<close> is what \<open>c.timeNow()\<close> returns if it is called. The third component
  is the event as the caller sees it afterwards: the slice \<open>event.Instances\<close> shares its
  array with the caller's.
\<close>

definition Update ::
  "('e, 'c) endpointCache \<Rightarrow> 'c effects \<Rightarrow> event \<Rightarrow> int \<Rightarrow>
   ('e, 'c) endpointCache \<times> 'c effects \<times> event" where
  "Update c w ev now =
     (case Err ev of
        None \<Rightarrow>
          (case updateCache c w (Instances ev) of
             (c1, w1, insts) \<Rightarrow> (c1\<lparr>err := None\<rparr>, w1, ev\<lparr>Instances := insts\<rparr>))
      | Some e \<Rightarrow>
          (let w1 = w\<lparr>logLines := logLines w @ [LogErr e]\<rparr> in
           if \<not> invalidateOnError (options c) then (c, w1, ev)
           else if err c \<noteq> None then (c, w1, ev)
           else (c\<lparr>err := Some e,
                   invalidateDeadline := now + invalidateTimeout (options c)\<rparr>, w1, ev)))"

text \<open>
  \<open>Endpoints\<close>; \<open>now1\<close> is what \<open>c.timeNow()\<close> returns under the read lock and \<open>now2\<close>
  what it returns at the re-check under the write lock. The model is sequential: no other
  call runs between the release of the read lock and the taking of the write lock.
\<close>

definition Endpoints ::
  "('e, 'c) endpointCache \<Rightarrow> 'c effects \<Rightarrow> int \<Rightarrow> int \<Rightarrow>
   ('e, 'c) endpointCache \<times> 'c effects \<times> 'e list \<times> error option" where
  "Endpoints c w now1 now2 =
     (if err c = None \<or> now1 < invalidateDeadline c then (c, w, endpoints c, None)
      else if err c = None \<or> now2 < invalidateDeadline c then (c, w, endpoints c, None)
      else (case updateCache c w [] of (c1, w1, insts) \<Rightarrow> (c1, w1, [], err c1)))"

subsection \<open>A concrete cache\<close>

text \<open>
  A factory that fails on the instance \<open>bad\<close> and otherwise numbers its endpoints and
  closers by the calls made so far, and a cache holding two entries made by it.
\<close>

definition exFactory :: "(nat, nat) factory" where
  "exFactory h i =
     (if i = ''bad'' then (0, None, Some (ErrorString ''dial''))
      else (length h + 10, Some (length h + 20), None))"

definition exCache :: "(nat, nat) endpointCache" where
  "exCache =
     \<lparr>options = \<lparr>invalidateOnError = True, invalidateTimeout = 100\<rparr>,
      factory = exFactory, cache = [(''a'', (1, Some 7)), (''b'', (2, None))],
      err = None, endpoints = [1, 2], invalidateDeadline = 0\<rparr>"

definition exEffects :: "nat effects" where
  "exEffects = \<lparr>factoryCalls = [''a'', ''b''], closeCalls = {#}, logLines = []\<rparr>"

subsection \<open>Sequences of calls\<close>

text \<open>
  The calls a cache receives: an \<open>Update\<close> with its event and the clock reading it
  would take, and an \<open>Endpoints\<close> with its two clock readings. \<open>exec\<close> is one call on
  the cache and the effects, \<open>run\<close> a sequence of calls, each under the lock.
\<close>

datatype call = CallUpdate event int | CallEndpoints int int





subsection \<open>Balancers\<close>

text \<open>
  What a call returns in Go: the values returned, or a run-time panic (an index out of
  range, a division by zero).
\<close>

datatype 'a outcome = Panic | Returned 'a


text \<open>\<open>roundRobin\<close>: the field \<open>c\<close>, a uint64, is \<open>rr_c\<close>.\<close>

record roundRobin =
  rr_c :: "64 word"

definition NewRoundRobin :: roundRobin where
  "NewRoundRobin = \<lparr>rr_c = 0\<rparr>"

text \<open>
  \<open>roundRobin.Endpoint\<close>. \<open>atomic.AddUint64\<close> adds 1 to the counter, wrapping at
  \<open>2 ^ 64\<close>, and returns the new value; \<open>uint64(len(endpoints))\<close> is \<open>of_nat\<close> of the
  length; \<open>%\<close> on uint64 is \<open>mod\<close> on words and panics on a zero divisor.
\<close>

definition roundRobin_Endpoint ::
  "roundRobin \<Rightarrow> 'e list \<times> error option \<Rightarrow>
   ('e option \<times> error option) outcome \<times> roundRobin" where
  "roundRobin_Endpoint rr res =
     (case res of
        (eps, Some e) \<Rightarrow> (Returned (None, Some e), rr)
      | (eps, None) \<Rightarrow>
          if length eps \<le> 0 then (Returned (None, Some ErrNoEndpoints), rr)
          else
            (let new = rr_c rr + 1;
                 old = new - 1;
                 n = (of_nat (length eps) :: 64 word)
             in if n = 0 then (Panic, rr\<lparr>rr_c := new\<rparr>)
                else
                  (let idx = old mod n
                   in if unat idx < length eps
                      then (Returned (Some (eps ! unat idx), None), rr\<lparr>rr_c := new\<rparr>)
                      else (Panic, rr\<lparr>rr_c := new\<rparr>))))"

text \<open>
  \<open>k\<close> calls of \<open>Endpoint\<close> in a row on a round-robin balancer whose endpointer is the
  fixed snapshot \<open>eps\<close> (a \<open>FixedEndpointer\<close>, which returns its slice and a nil error).
\<close>

fun roundRobin_calls ::
  "roundRobin \<Rightarrow> 'e list \<Rightarrow> nat \<Rightarrow> ('e option \<times> error option) outcome list \<times> roundRobin" where
  "roundRobin_calls rr eps 0 = ([], rr)"
| "roundRobin_calls rr eps (Suc k) =
     (case roundRobin_Endpoint rr (eps, None) of
        (out, rr1) \<Rightarrow>
          (case roundRobin_calls rr1 eps k of (outs, rr2) \<Rightarrow> (out # outs, rr2)))"


subsection \<open>Balancers on the endpointers of package sd\<close>


text \<open>
  The mutex \<open>c.mtx\<close> of an endpoint cache, a \<open>sync.RWMutex\<close> of the Go library, as the other
  goroutines hold it when a call arrives: free; read-locked, no writer waiting;
  read-locked with a writer waiting in \<open>Lock\<close>; write-locked. \<open>Update\<close> holds the write
  lock from its first statement to its return, so across the factory calls of
  \<open>updateCache\<close>. \<open>RLock\<close> waits while a writer holds the lock or waits for it, \<open>Lock\<close>
  waits unless the lock is free.
\<close>

datatype rwmutex = Free | ReadHeld | WriterWaiting | WriteHeld

definition RLock_waits :: "rwmutex \<Rightarrow> bool" where
  "RLock_waits m = (m = WriterWaiting \<or> m = WriteHeld)"

definition Lock_waits :: "rwmutex \<Rightarrow> bool" where
  "Lock_waits m = (m \<noteq> Free)"

text \<open>
  \<open>endpointCache.Endpoints\<close> with its lock operations, the mutex being in state \<open>m\<close> for
  the others throughout the call: \<open>None\<close> when the call waits in \<open>c.mtx.RLock()\<close> or in
  \<open>c.mtx.Lock()\<close>, otherwise what \<open>Endpoints\<close> above returns.
  \<open>DefaultEndpointer.Endpoints\<close> is this call on its cache.
\<close>

definition Endpoints_locked ::
  "rwmutex \<Rightarrow> ('e, 'c) endpointCache \<Rightarrow> 'c effects \<Rightarrow> int \<Rightarrow> int \<Rightarrow>
   (('e, 'c) endpointCache \<times> 'c effects \<times> 'e list \<times> error option) option" where
  "Endpoints_locked m c w now1 now2 =
     (if RLock_waits m then None
      else if err c = None \<or> now1 < invalidateDeadline c then Some (c, w, endpoints c, None)
      else if Lock_waits m then None
      else if err c = None \<or> now2 < invalidateDeadline c then Some (c, w, endpoints c, None)
      else (case updateCache c w [] of (c1, w1, insts) \<Rightarrow> Some (c1, w1, [], err c1)))"



subsection \<open>Retry executor\<close>

text \<open>
  Modelled from the spec: the retry executor of package lb (\<open>Retry\<close>,
  \<open>RetryWithCallback\<close>), whose source file is not among the sources; its test and the
  callers that read \<open>RetryError\<close> are. Time is logical, in nanoseconds. One attempt asks
  the balancer for an operation and invokes it under the shared deadline; what the
  attempt would do if left alone is given by the environment: it blocks for ever, or it
  is done after a duration with the error or the response (an empty pool is done at once
  with ErrNoEndpoints).
\<close>

datatype 'res attempt = Blocks | Done nat "error + 'res"

text \<open>
  Modelled from the spec: the loop of the state machine. \<open>attempt i now\<close> is attempt
  number \<open>i\<close> (from 1) started at time \<open>now\<close>; \<open>cont\<close> is the continuation: whether to go
  on after a failure, and an error to put in place of the last one. The shared deadline is
  checked before an attempt starts, and the loop returns as soon as the deadline expires
  while an attempt is in flight, with the deadline's own error. A success returns the
  response. A stop makes a RetryError of the final error and the errors of all attempts.
  The result is \<open>None\<close> when the loop never returns.
\<close>

partial_function (option) retry_loop ::
  "(nat \<Rightarrow> int \<Rightarrow> 'res attempt) \<Rightarrow> (nat \<Rightarrow> error \<Rightarrow> bool \<times> error option) \<Rightarrow>
   int \<Rightarrow> int \<Rightarrow> nat \<Rightarrow> error list \<Rightarrow> (error + 'res) option" where
  "retry_loop attempt cont deadline now i errs =
     (if deadline \<le> now then Some (Inl DeadlineExceeded)
      else
        (case attempt i now of
           Blocks \<Rightarrow> Some (Inl DeadlineExceeded)
         | Done d out \<Rightarrow>
             if deadline \<le> now + int d then Some (Inl DeadlineExceeded)
             else
               (case out of
                  Inr response \<Rightarrow> Some (Inr response)
                | Inl e \<Rightarrow>
                    (case cont i e of
                       (keepTrying, override) \<Rightarrow>
                         if keepTrying
                         then retry_loop attempt cont deadline (now + int d) (Suc i)
                                (errs @ [e])
                         else Some (Inl (RetryError
                                (case override of None \<Rightarrow> e | Some e' \<Rightarrow> e')
                                (errs @ [e])))))))"

text \<open>
  Modelled from the spec: the deadline of the whole retry sequence, derived once from the
  timeout, or the tighter of that and the caller's deadline.
\<close>

definition sharedDeadline :: "int \<Rightarrow> int option \<Rightarrow> int \<Rightarrow> int" where
  "sharedDeadline timeout callerDeadline now =
     (case callerDeadline of
        None \<Rightarrow> now + timeout
      | Some d \<Rightarrow> min (now + timeout) d)"

text \<open>
  Modelled from the spec: the two variants. The fixed-count one continues unless the
  attempt index equals \<open>maxAttempts\<close>; the callback one asks the callback, a nil callback
  meaning always continue.
\<close>

definition maxRetries :: "nat \<Rightarrow> nat \<Rightarrow> error \<Rightarrow> bool \<times> error option" where
  "maxRetries maxAttempts i e = (i \<noteq> maxAttempts, None)"

definition alwaysRetry :: "nat \<Rightarrow> error \<Rightarrow> bool \<times> error option" where
  "alwaysRetry i e = (True, None)"

definition Retry ::
  "nat \<Rightarrow> int \<Rightarrow> (nat \<Rightarrow> int \<Rightarrow> 'res attempt) \<Rightarrow> int option \<Rightarrow> int \<Rightarrow> (error + 'res) option" where
  "Retry maxAttempts timeout attempt callerDeadline now =
     retry_loop attempt (maxRetries maxAttempts) (sharedDeadline timeout callerDeadline now)
       now 1 []"

definition RetryWithCallback ::
  "int \<Rightarrow> (nat \<Rightarrow> int \<Rightarrow> 'res attempt) \<Rightarrow> (nat \<Rightarrow> error \<Rightarrow> bool \<times> error option) option \<Rightarrow>
   int option \<Rightarrow> int \<Rightarrow> (error + 'res) option" where
  "RetryWithCallback timeout attempt cb callerDeadline now =
     retry_loop attempt (case cb of None \<Rightarrow> alwaysRetry | Some f \<Rightarrow> f)
       (sharedDeadline timeout callerDeadline now) now 1 []"

text \<open>
  The attempts from number \<open>i\<close> on, the first started at \<open>now\<close>, fail one after the other
  with the durations and errors of the list, each done before the deadline, and the
  continuation goes on after each.
\<close>

fun failsBefore ::
  "(nat \<Rightarrow> int \<Rightarrow> 'res attempt) \<Rightarrow> (nat \<Rightarrow> error \<Rightarrow> bool \<times> error option) \<Rightarrow>
   int \<Rightarrow> int \<Rightarrow> nat \<Rightarrow> (nat \<times> error) list \<Rightarrow> bool" where
  "failsBefore attempt cont deadline now i [] = True"
| "failsBefore attempt cont deadline now i ((d, e) # rest) =
     (now + int d < deadline \<and> attempt i now = Done d (Inl e) \<and> fst (cont i e) \<and>
      failsBefore attempt cont deadline (now + int d) (Suc i) rest)"

text \<open>
  The deadline expires before attempt \<open>i\<close>, started at \<open>now\<close>, is done: it has passed
  already, or the attempt blocks, or it is done at the deadline or later.
\<close>

definition expiresDuring :: "(nat \<Rightarrow> int \<Rightarrow> 'res attempt) \<Rightarrow> int \<Rightarrow> int \<Rightarrow> nat \<Rightarrow> bool" where
  "expiresDuring attempt deadline now i =
     (deadline \<le> now \<or>
      (case attempt i now of Blocks \<Rightarrow> True | Done d out \<Rightarrow> deadline \<le> now + int d))"

text \<open>
  An environment for the examples: the first attempt fails after 3 nanoseconds, every
  other attempt blocks.
\<close>

definition exAttempt :: "nat \<Rightarrow> int \<Rightarrow> unit attempt" where
  "exAttempt i now = (if i = 1 then Done 3 (Inl (ErrorString ''error one'')) else Blocks)"

subsection \<open>The loops of updateCache\<close>




lemma produce_factoryCalls:
  "distinct xs \<Longrightarrow>
   factoryCalls (snd (snd (produce f xs old new w))) =
     factoryCalls w @ filter (\<lambda>i. map_of old i = None) xs"
proof (induction xs arbitrary: old new w)
  case Nil
  then show ?case by simp
next
  case (Cons x xs)
  show ?case
  proof (cases "map_of old x")
    case None
    with Cons show ?thesis
      by (auto split: option.splits prod.splits simp: Let_def)
  next
    case (Some sc)
    have "filter (\<lambda>i. map_of (AList.delete x old) i = None) xs =
          filter (\<lambda>i. map_of old i = None) xs"
      using Cons.prems by (intro filter_cong) (auto simp: AList.delete_conv')
    with Some Cons show ?thesis by simp
  qed
qed

lemma produce_new_other:
  "k \<notin> set xs \<Longrightarrow> map_of (fst (snd (produce f xs old new w))) k = map_of new k"
  by (induction xs arbitrary: old new w)
     (auto split: option.splits prod.splits simp: Let_def AList.update_conv')

lemma populate_map:
  "populate new xs =
     map (\<lambda>k. fst (the (map_of new k))) (filter (\<lambda>k. map_of new k \<noteq> None) xs)"
  by (induction xs) (auto split: option.splits)

lemma produce_new_carried:
  "distinct xs \<Longrightarrow> k \<in> set xs \<Longrightarrow> map_of old k = Some sc \<Longrightarrow>
   map_of (fst (snd (produce f xs old new w))) k = Some sc"
proof (induction xs arbitrary: old new w)
  case Nil
  then show ?case by simp
next
  case (Cons x xs)
  show ?case
  proof (cases "x = k")
    case True
    with Cons.prems show ?thesis
      by (simp add: produce_new_other AList.update_conv')
  next
    case False
    with Cons.prems have "k \<in> set xs" "distinct xs" by auto
    moreover have "map_of (AList.delete x old) k = Some sc"
      using False Cons.prems by simp
    ultimately show ?thesis using Cons.IH Cons.prems(3)
      by (simp split: option.splits prod.splits add: Let_def)
  qed
qed

lemma produce_new_dom:
  "distinct xs \<Longrightarrow>
   \<forall>i\<in>set xs. map_of old i = None \<longrightarrow> (\<forall>h. (snd (snd (f h i)) = None) = ok i) \<Longrightarrow>
   dom (map_of (fst (snd (produce f xs old new w)))) =
     dom (map_of new) \<union> {i \<in> set xs. map_of old i \<noteq> None \<or> ok i}"
proof (induction xs arbitrary: old new w)
  case Nil
  then show ?case by simp
next
  case (Cons x xs)
  have dx: "distinct xs" and nx: "x \<notin> set xs" using Cons.prems(1) by auto
  show ?case
  proof (cases "map_of old x")
    case (Some sc)
    have hyp: "\<forall>i\<in>set xs. map_of (AList.delete x old) i = None \<longrightarrow>
                 (\<forall>h. (snd (snd (f h i)) = None) = ok i)"
      using Cons.prems(2) nx by (auto simp: AList.delete_conv')
    have eq: "{i \<in> set xs. map_of (AList.delete x old) i \<noteq> None \<or> ok i} =
          {i \<in> set xs. map_of old i \<noteq> None \<or> ok i}"
      using nx by (auto simp: AList.delete_conv')
    have "dom (map_of (fst (snd (produce f (x # xs) old new w)))) =
          dom (map_of (AList.update x sc new)) \<union> {i \<in> set xs. map_of old i \<noteq> None \<or> ok i}"
      using Cons.IH[OF dx hyp, of "AList.update x sc new" w] Some eq by simp
    also have "dom (map_of (AList.update x sc new)) = insert x (dom (map_of new))"
      by (simp add: AList.update_conv')
    also have "insert x (dom (map_of new)) \<union> {i \<in> set xs. map_of old i \<noteq> None \<or> ok i} =
               dom (map_of new) \<union> {i \<in> set (x # xs). map_of old i \<noteq> None \<or> ok i}"
      using Some by auto
    finally show ?thesis .
  next
    case None
    have hyp: "\<forall>i\<in>set xs. map_of old i = None \<longrightarrow> (\<forall>h. (snd (snd (f h i)) = None) = ok i)"
      using Cons.prems(2) by auto
    have okx: "(snd (snd (f (factoryCalls w) x)) = None) = ok x"
      using Cons.prems(2) None by auto
    obtain sv cl fe where fx: "f (factoryCalls w) x = (sv, cl, fe)"
      by (cases "f (factoryCalls w) x") auto
    show ?thesis
    proof (cases fe)
      case None2: None
      with okx fx have "ok x" by simp
      have "dom (map_of (fst (snd (produce f (x # xs) old new w)))) =
            dom (map_of (AList.update x (sv, cl) new)) \<union>
              {i \<in> set xs. map_of old i \<noteq> None \<or> ok i}"
        using Cons.IH[OF dx hyp, of "AList.update x (sv, cl) new"
            "w\<lparr>factoryCalls := factoryCalls w @ [x]\<rparr>"] None fx None2
        by (simp add: Let_def)
      also have "dom (map_of (AList.update x (sv, cl) new)) = insert x (dom (map_of new))"
        by (simp add: AList.update_conv')
      also have "insert x (dom (map_of new)) \<union> {i \<in> set xs. map_of old i \<noteq> None \<or> ok i} =
                 dom (map_of new) \<union> {i \<in> set (x # xs). map_of old i \<noteq> None \<or> ok i}"
        using \<open>ok x\<close> by auto
      finally show ?thesis .
    next
      case (Some e)
      with okx fx have "\<not> ok x" by simp
      have "dom (map_of (fst (snd (produce f (x # xs) old new w)))) =
            dom (map_of new) \<union> {i \<in> set xs. map_of old i \<noteq> None \<or> ok i}"
        using Cons.IH[OF dx hyp, of new
            "w\<lparr>factoryCalls := factoryCalls w @ [x],
               logLines := logLines w @ [LogInstanceErr x e]\<rparr>"] None fx Some
        by (simp add: Let_def)
      also have "\<dots> = dom (map_of new) \<union> {i \<in> set (x # xs). map_of old i \<noteq> None \<or> ok i}"
        using \<open>\<not> ok x\<close> None by auto
      finally show ?thesis .
    qed
  qed
qed




lemma length_filter_neq:
  "distinct ys \<Longrightarrow> bad \<in> set ys \<Longrightarrow> length (filter (\<lambda>k. k \<noteq> bad) ys) = length ys - 1"
proof (induction ys)
  case Nil
  then show ?case by simp
next
  case (Cons a ys)
  show ?case
  proof (cases "a = bad")
    case True
    with Cons.prems have "filter (\<lambda>k. k \<noteq> bad) ys = ys"
      by (auto simp: filter_id_conv)
    with True show ?thesis by simp
  next
    case False
    with Cons.prems have "bad \<in> set ys" "distinct ys" by auto
    with Cons.IH have "length (filter (\<lambda>k. k \<noteq> bad) ys) = length ys - 1" by simp
    moreover have "0 < length ys" using \<open>bad \<in> set ys\<close> by (rule length_pos_if_in_set)
    ultimately show ?thesis using False by simp
  qed
qed

lemma Update_ok_cache:
  "Err ev = None \<Longrightarrow>
   cache (fst (Update c w ev now)) =
     fst (snd (produce (factory c) (sort (Instances ev)) (cache c) [] w))"
  by (simp add: Update_def updateCache_def updateCache_closed_def Let_def split: prod.splits)

lemma Update_ok_endpoints:
  "Err ev = None \<Longrightarrow>
   endpoints (fst (Update c w ev now)) =
     populate (fst (snd (produce (factory c) (sort (Instances ev)) (cache c) [] w)))
       (sort (Instances ev))"
  by (simp add: Update_def updateCache_def updateCache_closed_def Let_def split: prod.splits)

lemma Update_ok_err: "Err ev = None \<Longrightarrow> err (fst (Update c w ev now)) = None"
  by (simp add: Update_def updateCache_def updateCache_closed_def Let_def split: prod.splits)

lemma Update_ok_factoryCalls:
  "Err ev = None \<Longrightarrow>
   factoryCalls (fst (snd (Update c w ev now))) =
     factoryCalls (snd (snd (produce (factory c) (sort (Instances ev)) (cache c) [] w)))"
  by (simp add: Update_def updateCache_def updateCache_closed_def closeLeftover_def Let_def
      split: prod.splits)


lemma Update_ok_frame:
  "Err ev = None \<Longrightarrow>
   options (fst (Update c w ev now)) = options c \<and>
   factory (fst (Update c w ev now)) = factory c \<and>
   invalidateDeadline (fst (Update c w ev now)) = invalidateDeadline c"
  by (simp add: Update_def updateCache_def updateCache_closed_def Let_def split: prod.splits)

lemma Update_sort_cong:
  "Err ev = None \<Longrightarrow> Err ev' = None \<Longrightarrow> sort (Instances ev) = sort (Instances ev') \<Longrightarrow>
   fst (Update c w ev now) = fst (Update c w ev' now') \<and>
   fst (snd (Update c w ev now)) = fst (snd (Update c w ev' now'))"
  by (simp add: Update_def updateCache_def updateCache_closed_def Let_def split: prod.splits)

lemma Endpoints_no_error:
  "err c = None \<Longrightarrow> Endpoints c w now1 now2 = (c, w, endpoints c, None)"
  by (simp add: Endpoints_def)

lemma produce_keys_from_empty:
  "fst ` set (fst (snd (produce f xs old [] w))) \<subseteq> set xs"
proof
  fix k assume "k \<in> fst ` set (fst (snd (produce f xs old [] w)))"
  then have "map_of (fst (snd (produce f xs old [] w))) k \<noteq> None"
    by (simp add: map_of_eq_None_iff)
  show "k \<in> set xs"
  proof (rule ccontr)
    assume "k \<notin> set xs"
    then have "map_of (fst (snd (produce f xs old [] w))) k = None"
      by (simp add: produce_new_other)
    with \<open>map_of (fst (snd (produce f xs old [] w))) k \<noteq> None\<close> show False by simp
  qed
qed




lemma updateCache_frame:
  "options (fst (updateCache c w xs)) = options c \<and>
   factory (fst (updateCache c w xs)) = factory c \<and>
   err (fst (updateCache c w xs)) = err c \<and>
   invalidateDeadline (fst (updateCache c w xs)) = invalidateDeadline c"
  by (simp add: updateCache_def updateCache_closed_def Let_def split: prod.splits)














lemma roundRobin_Endpoint_nonempty:
  assumes "0 < length eps" and "length eps < 2 ^ 64"
  shows "roundRobin_Endpoint rr (eps, None) =
           (Returned (Some (eps ! (unat (rr_c rr) mod length eps)), None),
            rr\<lparr>rr_c := rr_c rr + 1\<rparr>)"
proof -
  let ?n = "of_nat (length eps) :: 64 word"
  have un: "unat ?n = length eps"
    using assms(2) by (simp add: unat_of_nat)
  have n0: "?n \<noteq> 0"
  proof
    assume "?n = 0"
    then have "unat ?n = 0" by simp
    with un assms(1) show False by simp
  qed
  have idx: "unat (rr_c rr mod ?n) = unat (rr_c rr) mod length eps"
    using un by (simp add: unat_mod)
  then have lt: "unat (rr_c rr mod ?n) < length eps"
    using assms(1) by simp
  show ?thesis
    using assms(1) n0 idx lt by (simp add: roundRobin_Endpoint_def Let_def)
qed

lemma roundRobin_calls_nonempty:
  assumes "0 < length eps" and "length eps < 2 ^ 64"
  shows "roundRobin_calls rr eps k =
           (map (\<lambda>i. Returned (Some (eps ! (unat (rr_c rr + of_nat i) mod length eps)), None))
              [0..<k],
            rr\<lparr>rr_c := rr_c rr + of_nat k\<rparr>)"
proof (induction k arbitrary: rr)
  case 0
  then show ?case by simp
next
  case (Suc k)
  let ?f = "\<lambda>c i. Returned (Some (eps ! (unat (c + of_nat i :: 64 word) mod length eps)), None)"
  have l: "[0..<Suc k] = 0 # map Suc [0..<k]"
    by (simp only: upt_conv_Cons[of 0 "Suc k", OF zero_less_Suc] map_Suc_upt)
  have "map (?f (rr_c rr)) [0..<Suc k] =
        ?f (rr_c rr) 0 # map (\<lambda>i. ?f (rr_c rr) (Suc i)) [0..<k]"
    by (simp only: l list.map map_map comp_def)
  also have "(\<lambda>i. ?f (rr_c rr) (Suc i)) = ?f (rr_c rr + 1)"
    by (simp add: ac_simps)
  finally have m: "map (?f (rr_c rr)) [0..<Suc k] =
        Returned (Some (eps ! (unat (rr_c rr) mod length eps)), None) #
        map (?f (rr_c rr + 1)) [0..<k]"
    by simp
  have c: "rr_c rr + 1 + of_nat k = rr_c rr + of_nat (Suc k)"
    by (simp add: ac_simps)
  have "roundRobin_calls rr eps (Suc k) =
        (Returned (Some (eps ! (unat (rr_c rr) mod length eps)), None) #
         map (?f (rr_c rr + 1)) [0..<k],
         rr\<lparr>rr_c := rr_c rr + 1 + of_nat k\<rparr>)"
    using Suc.IH[of "rr\<lparr>rr_c := rr_c rr + 1\<rparr>"] roundRobin_Endpoint_nonempty[OF assms, of rr]
    by (simp del: upt_Suc)
  then show ?case by (simp only: m c)
qed

lemma rotate_nth_map:
  assumes "0 < length eps"
  shows "map (\<lambda>i. eps ! ((j + i) mod length eps)) [0..<length eps] = rotate j eps"
  by (rule nth_equalityI) (simp_all add: nth_rotate)

lemma retry_loop_expires:
  "failsBefore attempt cont deadline now i fails \<Longrightarrow>
   expiresDuring attempt deadline (now + int (sum_list (map fst fails))) (i + length fails) \<Longrightarrow>
   retry_loop attempt cont deadline now i errs = Some (Inl DeadlineExceeded)"
proof (induction fails arbitrary: now i errs)
  case Nil
  then show ?case
    by (subst retry_loop.simps) (auto simp: expiresDuring_def split: attempt.splits)
next
  case (Cons p fails)
  obtain d e where p: "p = (d, e)" by (cases p)
  have f: "now + int d < deadline" "attempt i now = Done d (Inl e)" "fst (cont i e)"
    "failsBefore attempt cont deadline (now + int d) (Suc i) fails"
    using Cons.prems(1) p by simp_all
  have "expiresDuring attempt deadline (now + int d + int (sum_list (map fst fails)))
          (Suc i + length fails)"
    using Cons.prems(2) p by (simp add: add.assoc)
  then have ih: "retry_loop attempt cont deadline (now + int d) (Suc i) (errs @ [e]) =
      Some (Inl DeadlineExceeded)"
    using Cons.IH[OF f(4)] by simp
  obtain ov where c: "cont i e = (True, ov)"
    using f(3) by (cases "cont i e") auto
  have "\<not> deadline \<le> now" using f(1) by simp
  then show ?case
    using f(1,2) c ih by (subst retry_loop.simps) simp
qed

lemma Endpoints_locked_Some:
  "Endpoints_locked m c w now1 now2 = Some r \<Longrightarrow> r = Endpoints c w now1 now2"
  by (auto simp: Endpoints_locked_def Endpoints_def split: if_splits prod.splits)


subsection \<open>Frame of the sad path\<close>

text \<open>
  Claim C6: an Update whose event carries an error leaves the entry map and the snapshot
  as they were; if an error is already recorded, it leaves the recorded error and the
  invalidation deadline as they were too.
\<close>

theorem Update_error_frame:
  "Err ev \<noteq> None \<Longrightarrow>
   cache (fst (Update c w ev now)) = cache c \<and>
   endpoints (fst (Update c w ev now)) = endpoints c \<and>
   (err c \<noteq> None \<longrightarrow>
      err (fst (Update c w ev now)) = err c \<and>
      invalidateDeadline (fst (Update c w ev now)) = invalidateDeadline c)"
  by (auto simp: Update_def Let_def)

theorem Update_error_frame_witness:
  "Err \<lparr>Instances = [], Err = Some DeadlineExceeded\<rparr> \<noteq> None \<and>
   err (exCache\<lparr>err := Some ErrNoEndpoints, invalidateDeadline := 40\<rparr>) \<noteq> None \<and>
   cache (fst (Update (exCache\<lparr>err := Some ErrNoEndpoints, invalidateDeadline := 40\<rparr>) exEffects
       \<lparr>Instances = [], Err = Some DeadlineExceeded\<rparr> 50)) =
     [(''a'', (1, Some 7)), (''b'', (2, None))] \<and>
   endpoints (fst (Update (exCache\<lparr>err := Some ErrNoEndpoints, invalidateDeadline := 40\<rparr>) exEffects
       \<lparr>Instances = [], Err = Some DeadlineExceeded\<rparr> 50)) = [1, 2] \<and>
   err (fst (Update (exCache\<lparr>err := Some ErrNoEndpoints, invalidateDeadline := 40\<rparr>) exEffects
       \<lparr>Instances = [], Err = Some DeadlineExceeded\<rparr> 50)) = Some ErrNoEndpoints \<and>
   invalidateDeadline (fst (Update (exCache\<lparr>err := Some ErrNoEndpoints, invalidateDeadline := 40\<rparr>)
       exEffects \<lparr>Instances = [], Err = Some DeadlineExceeded\<rparr> 50)) = 40"
  using Update_error_frame [of "\<lparr>Instances = [], Err = Some DeadlineExceeded\<rparr>"
      "exCache\<lparr>err := Some ErrNoEndpoints, invalidateDeadline := 40\<rparr>" exEffects 50]
  by (simp add: exCache_def)

subsection \<open>The caller's slice of instances\<close>

text \<open>
  Claim C10: an Update whose event carries no error sorts the event's slice of instances
  in place: afterwards the caller's slice holds the same strings in lexicographic order.
\<close>

theorem Update_sorts_instances:
  "Err ev = None \<Longrightarrow>
   Instances (snd (snd (Update c w ev now))) = sort (Instances ev) \<and>
   sorted (Instances (snd (snd (Update c w ev now)))) \<and>
   mset (Instances (snd (snd (Update c w ev now)))) = mset (Instances ev)"
  by (simp add: Update_def updateCache_def updateCache_closed_def Let_def split: prod.splits)

theorem Update_sorts_instances_witness:
  "Err \<lparr>Instances = [''c'', ''a'', ''b''], Err = None\<rparr> = None \<and>
   Instances (snd (snd (Update exCache exEffects
       \<lparr>Instances = [''c'', ''a'', ''b''], Err = None\<rparr> 0))) = [''a'', ''b'', ''c'']"
  using Update_sorts_instances
    [of "\<lparr>Instances = [''c'', ''a'', ''b''], Err = None\<rparr>" exCache exEffects 0]
  by simp

subsection \<open>Order of the snapshot\<close>

text \<open>
  Claim C2: after an Update whose event carries no error, the snapshot lists the endpoints
  of the entries in lexicographic order of their instance strings; two such Updates of the
  same cache that carry the same instances in different arrival orders produce the same
  snapshot.
\<close>

theorem Update_snapshot_order:
  assumes "Err ev = None" and "Err ev' = None"
    and "mset (Instances ev') = mset (Instances ev)"
  shows "(\<exists>ks. sorted ks \<and> set ks = fst ` set (cache (fst (Update c w ev now))) \<and>
            (distinct (Instances ev) \<longrightarrow> distinct ks) \<and>
            endpoints (fst (Update c w ev now)) =
              map (\<lambda>k. fst (the (map_of (cache (fst (Update c w ev now))) k))) ks) \<and>
         endpoints (fst (Update c w ev' now')) = endpoints (fst (Update c w ev now)) \<and>
         cache (fst (Update c w ev' now')) = cache (fst (Update c w ev now))"
proof -
  let ?xs = "sort (Instances ev)"
  let ?new = "cache (fst (Update c w ev now))"
  let ?ks = "filter (\<lambda>k. map_of ?new k \<noteq> None) ?xs"
  have new: "?new = fst (snd (produce (factory c) ?xs (cache c) [] w))"
    using assms(1) by (rule Update_ok_cache)
  have "sorted ?ks" by (simp add: sorted_wrt_filter)
  moreover have "set ?ks = fst ` set ?new"
    using produce_keys_from_empty[of "factory c" ?xs "cache c" w] new
    by (auto simp: map_of_eq_None_iff)
  moreover have "distinct (Instances ev) \<longrightarrow> distinct ?ks" by simp
  moreover have "endpoints (fst (Update c w ev now)) = map (\<lambda>k. fst (the (map_of ?new k))) ?ks"
    using Update_ok_endpoints[OF assms(1), of c w now] new by (simp add: populate_map)
  ultimately have first: "\<exists>ks. sorted ks \<and> set ks = fst ` set ?new \<and>
      (distinct (Instances ev) \<longrightarrow> distinct ks) \<and>
      endpoints (fst (Update c w ev now)) = map (\<lambda>k. fst (the (map_of ?new k))) ks"
    by blast
  have "sort (Instances ev') = sort (Instances ev)"
    using assms(3) by (intro properties_for_sort) simp_all
  then have "fst (Update c w ev' now') = fst (Update c w ev now)"
    using Update_sort_cong[OF assms(2) assms(1), of c w now' now] by simp
  with first show ?thesis by simp
qed

theorem Update_snapshot_order_witness:
  "Err \<lparr>Instances = [''c'', ''a''], Err = None\<rparr> = None \<and>
   Err \<lparr>Instances = [''a'', ''c''], Err = None\<rparr> = None \<and>
   mset (Instances \<lparr>Instances = [''a'', ''c''], Err = None\<rparr>) =
     mset (Instances \<lparr>Instances = [''c'', ''a''], Err = None\<rparr>) \<and>
   distinct (Instances \<lparr>Instances = [''c'', ''a''], Err = None\<rparr>) \<and>
   endpoints (fst (Update exCache exEffects \<lparr>Instances = [''a'', ''c''], Err = None\<rparr> 9)) =
     endpoints (fst (Update exCache exEffects \<lparr>Instances = [''c'', ''a''], Err = None\<rparr> 5)) \<and>
   endpoints (fst (Update exCache exEffects \<lparr>Instances = [''c'', ''a''], Err = None\<rparr> 5)) = [1, 12] \<and>
   cache (fst (Update exCache exEffects \<lparr>Instances = [''c'', ''a''], Err = None\<rparr> 5)) =
     [(''a'', (1, Some 7)), (''c'', (12, Some 22))]"
  using Update_snapshot_order [of "\<lparr>Instances = [''c'', ''a''], Err = None\<rparr>"
      "\<lparr>Instances = [''a'', ''c''], Err = None\<rparr>" exCache exEffects 9 5]
  by (simp add: Update_def updateCache_def updateCache_closed_def exCache_def exEffects_def
      exFactory_def Let_def)

subsection \<open>Entries that survive an Update\<close>

text \<open>
  Claim C3: when an instance has an entry in the cache and the instance set of an
  error-free Update contains it, the entry is carried over as it is, its endpoint is in
  the new snapshot, and the factory is not called for it: the factory is called for the
  instances of the event that have no entry, once each and in sorted order.
\<close>

theorem Update_carries_over:
  assumes "Err ev = None" and "distinct (Instances ev)"
    and "map_of (cache c) k = Some sc" and "k \<in> set (Instances ev)"
  shows "map_of (cache (fst (Update c w ev now))) k = Some sc \<and>
         fst sc \<in> set (endpoints (fst (Update c w ev now))) \<and>
         factoryCalls (fst (snd (Update c w ev now))) =
           factoryCalls w @ filter (\<lambda>i. map_of (cache c) i = None) (sort (Instances ev)) \<and>
         k \<notin> set (drop (length (factoryCalls w)) (factoryCalls (fst (snd (Update c w ev now)))))"
proof -
  let ?xs = "sort (Instances ev)"
  let ?new = "fst (snd (produce (factory c) ?xs (cache c) [] w))"
  have dx: "distinct ?xs" and kx: "k \<in> set ?xs" using assms(2,4) by simp_all
  have carried: "map_of ?new k = Some sc"
    using dx kx assms(3) by (rule produce_new_carried)
  then have "fst sc \<in> set (populate ?new ?xs)"
    using kx by (force simp: populate_map)
  moreover have calls: "factoryCalls (fst (snd (Update c w ev now))) =
      factoryCalls w @ filter (\<lambda>i. map_of (cache c) i = None) ?xs"
    using Update_ok_factoryCalls[OF assms(1), of c w now] produce_factoryCalls[OF dx]
    by simp
  moreover have "k \<notin> set (filter (\<lambda>i. map_of (cache c) i = None) ?xs)"
    using assms(3) by simp
  ultimately show ?thesis
    using carried Update_ok_cache[OF assms(1), of c w now]
      Update_ok_endpoints[OF assms(1), of c w now]
    by simp
qed

theorem Update_carries_over_witness:
  "Err \<lparr>Instances = [''c'', ''a''], Err = None\<rparr> = None \<and>
   distinct (Instances \<lparr>Instances = [''c'', ''a''], Err = None\<rparr>) \<and>
   map_of (cache exCache) ''a'' = Some (1, Some 7) \<and>
   ''a'' \<in> set (Instances \<lparr>Instances = [''c'', ''a''], Err = None\<rparr>) \<and>
   map_of (cache (fst (Update exCache exEffects \<lparr>Instances = [''c'', ''a''], Err = None\<rparr> 5)))
     ''a'' = Some (1, Some 7) \<and>
   fst (1::nat, Some (7::nat)) \<in>
     set (endpoints (fst (Update exCache exEffects \<lparr>Instances = [''c'', ''a''], Err = None\<rparr> 5))) \<and>
   factoryCalls (fst (snd (Update exCache exEffects
     \<lparr>Instances = [''c'', ''a''], Err = None\<rparr> 5))) = [''a'', ''b'', ''c'']"
  using Update_carries_over [of "\<lparr>Instances = [''c'', ''a''], Err = None\<rparr>" exCache "''a''"
      "(1, Some 7)" exEffects 5]
  by (simp add: exCache_def exEffects_def)

text \<open>
  The slice of instances is taken as a set above. On a slice that names a cached instance
  twice, the second occurrence finds the key already deleted from \<open>c.cache\<close>: the
  factory is called for it, its result replaces the entry carried over, and the closer of
  that entry is not closed.
\<close>

lemma Update_repeated_instance:
  "factoryCalls (fst (snd (Update exCache exEffects \<lparr>Instances = [''a'', ''a''], Err = None\<rparr> 5))) =
     [''a'', ''b'', ''a''] \<and>
   cache (fst (Update exCache exEffects \<lparr>Instances = [''a'', ''a''], Err = None\<rparr> 5)) =
     [(''a'', (12, Some 22))] \<and>
   endpoints (fst (Update exCache exEffects \<lparr>Instances = [''a'', ''a''], Err = None\<rparr> 5)) =
     [12, 12] \<and>
   closeCalls (fst (snd (Update exCache exEffects \<lparr>Instances = [''a'', ''a''], Err = None\<rparr> 5))) =
     {#}"
  by (simp add: Update_def updateCache_def updateCache_closed_def closeLeftover_def exCache_def
      exEffects_def exFactory_def Let_def)

subsection \<open>A factory that fails on one instance\<close>

text \<open>
  Claim C5: when an error-free Update carries N distinct instances, the factory fails on
  one of them, which has no entry yet, and succeeds on the others it is called for, the
  new snapshot has N - 1 endpoints, and a call of Endpoints after the Update returns that
  snapshot and no error, whatever the time.
\<close>

theorem Update_partial_failure:
  assumes "Err ev = None" and "distinct (Instances ev)"
    and "bad \<in> set (Instances ev)" and "map_of (cache c) bad = None"
    and "\<forall>h. snd (snd (factory c h bad)) \<noteq> None"
    and "\<forall>i\<in>set (Instances ev). i \<noteq> bad \<longrightarrow> map_of (cache c) i = None \<longrightarrow>
           (\<forall>h. snd (snd (factory c h i)) = None)"
  shows "length (endpoints (fst (Update c w ev now))) = length (Instances ev) - 1 \<and>
         (\<forall>now1 now2.
            Endpoints (fst (Update c w ev now)) (fst (snd (Update c w ev now))) now1 now2 =
              (fst (Update c w ev now), fst (snd (Update c w ev now)),
               endpoints (fst (Update c w ev now)), None))"
proof -
  let ?xs = "sort (Instances ev)"
  let ?new = "fst (snd (produce (factory c) ?xs (cache c) [] w))"
  have dx: "distinct ?xs" and bx: "bad \<in> set ?xs" using assms(2,3) by simp_all
  have hyp: "\<forall>i\<in>set ?xs. map_of (cache c) i = None \<longrightarrow>
               (\<forall>h. (snd (snd (factory c h i)) = None) = (i \<noteq> bad))"
  proof (intro ballI impI allI)
    fix i h assume i: "i \<in> set ?xs" "map_of (cache c) i = None"
    show "(snd (snd (factory c h i)) = None) = (i \<noteq> bad)"
    proof (cases "i = bad")
      case True
      have "snd (snd (factory c h bad)) \<noteq> None" using assms(5) by blast
      with True show ?thesis by simp
    next
      case False
      have "snd (snd (factory c h i)) = None" using assms(6) i False by simp
      with False show ?thesis by simp
    qed
  qed
  have "dom (map_of ?new) =
        dom (map_of []) \<union> {i \<in> set ?xs. map_of (cache c) i \<noteq> None \<or> i \<noteq> bad}"
    using produce_new_dom[where ok = "\<lambda>i. i \<noteq> bad", OF dx hyp] by simp
  then have dom: "dom (map_of ?new) = {i \<in> set ?xs. i \<noteq> bad}"
    using assms(4) by auto
  have "filter (\<lambda>k. map_of ?new k \<noteq> None) ?xs = filter (\<lambda>k. k \<noteq> bad) ?xs"
  proof (rule filter_cong[OF refl])
    fix k assume "k \<in> set ?xs"
    then show "(map_of ?new k \<noteq> None) = (k \<noteq> bad)"
      using dom by (auto simp: dom_def)
  qed
  then have "length (populate ?new ?xs) = length ?xs - 1"
    using length_filter_neq[OF dx bx] by (simp add: populate_map)
  then have "length (endpoints (fst (Update c w ev now))) = length (Instances ev) - 1"
    using Update_ok_endpoints[OF assms(1), of c w now] by simp
  moreover have "err (fst (Update c w ev now)) = None"
    using assms(1) by (rule Update_ok_err)
  ultimately show ?thesis by (simp add: Endpoints_no_error)
qed

theorem Update_partial_failure_witness:
  "Err \<lparr>Instances = [''c'', ''bad'', ''a''], Err = None\<rparr> = None \<and>
   distinct (Instances \<lparr>Instances = [''c'', ''bad'', ''a''], Err = None\<rparr>) \<and>
   ''bad'' \<in> set (Instances \<lparr>Instances = [''c'', ''bad'', ''a''], Err = None\<rparr>) \<and>
   map_of (cache exCache) ''bad'' = None \<and>
   length (endpoints (fst (Update exCache exEffects
     \<lparr>Instances = [''c'', ''bad'', ''a''], Err = None\<rparr> 5))) = 2 \<and>
   Endpoints (fst (Update exCache exEffects \<lparr>Instances = [''c'', ''bad'', ''a''], Err = None\<rparr> 5))
     (fst (snd (Update exCache exEffects \<lparr>Instances = [''c'', ''bad'', ''a''], Err = None\<rparr> 5)))
     1000 2000 =
     (fst (Update exCache exEffects \<lparr>Instances = [''c'', ''bad'', ''a''], Err = None\<rparr> 5),
      fst (snd (Update exCache exEffects \<lparr>Instances = [''c'', ''bad'', ''a''], Err = None\<rparr> 5)),
      endpoints (fst (Update exCache exEffects
        \<lparr>Instances = [''c'', ''bad'', ''a''], Err = None\<rparr> 5)), None)"
  using Update_partial_failure [of "\<lparr>Instances = [''c'', ''bad'', ''a''], Err = None\<rparr>" "''bad''"
      exCache exEffects 5]
  by (simp add: exCache_def exFactory_def)

subsection \<open>Entries that disappear\<close>



subsection \<open>Invalidation\<close>




subsection \<open>Balancers on an empty snapshot\<close>




subsection \<open>Round robin\<close>

text \<open>
  Claim C8, as stated, fails where the counter wraps: it is a uint64, so after
  \<open>2 ^ 64 - 1\<close> calls it holds \<open>2 ^ 64 - 1\<close>, and the next three calls on a snapshot of
  three endpoints select the indices 0, 0 and 1.
\<close>

theorem roundRobin_wrap_counterexample:
  "snd (roundRobin_calls NewRoundRobin [10, 11, 12 :: nat] (2 ^ 64 - 1)) = \<lparr>rr_c = - 1\<rparr> \<and>
   fst (roundRobin_calls \<lparr>rr_c = - 1\<rparr> [10, 11, 12 :: nat] 3) =
     [Returned (Some 10, None), Returned (Some 10, None), Returned (Some 11, None)]"
proof -
  have "snd (roundRobin_calls NewRoundRobin [10, 11, 12 :: nat] (2 ^ 64 - 1)) =
        NewRoundRobin\<lparr>rr_c := rr_c NewRoundRobin + of_nat (2 ^ 64 - 1)\<rparr>"
    by (simp add: roundRobin_calls_nonempty)
  also have "\<dots> = \<lparr>rr_c = - 1\<rparr>"
    by (simp add: NewRoundRobin_def)
  finally have a: "snd (roundRobin_calls NewRoundRobin [10, 11, 12 :: nat] (2 ^ 64 - 1)) =
      \<lparr>rr_c = - 1\<rparr>" .
  have b: "fst (roundRobin_calls \<lparr>rr_c = - 1\<rparr> [10, 11, 12 :: nat] 3) =
     [Returned (Some 10, None), Returned (Some 10, None), Returned (Some 11, None)]"
    by (simp add: numeral_3_eq_3 roundRobin_Endpoint_def Let_def)
  show ?thesis using a b by simp
qed

text \<open>
  Claim C8, amended: on a fixed non-empty snapshot of length N (a Go slice, so
  \<open>N < 2 ^ 63\<close>) the call number j after construction, counted from 0 and below
  \<open>2 ^ 64\<close>, selects the endpoint at index \<open>j mod N\<close>, the counter having gone up by one
  with each call; the first call selects index 0; and N calls in a row that end before the
  counter wraps, the first of them being call number j, return the snapshot rotated by j:
  every endpoint once, in rotating order.
\<close>

theorem roundRobin_rotation:
  assumes "0 < length eps" and "length eps < 2 ^ 63" and "j + length eps \<le> 2 ^ 64"
  shows "rr_c (snd (roundRobin_calls NewRoundRobin eps j)) = of_nat j \<and>
         fst (roundRobin_Endpoint (snd (roundRobin_calls NewRoundRobin eps j)) (eps, None)) =
           Returned (Some (eps ! (j mod length eps)), None) \<and>
         fst (roundRobin_Endpoint NewRoundRobin (eps, None)) = Returned (Some (eps ! 0), None) \<and>
         fst (roundRobin_calls (snd (roundRobin_calls NewRoundRobin eps j)) eps (length eps)) =
           map (\<lambda>x. Returned (Some x, None)) (rotate j eps)"
proof -
  have n64: "length eps < 2 ^ 64"
    using assms(2) by (rule less_trans) simp
  have j64: "j < 2 ^ 64" using assms(1,3) by linarith
  let ?rr = "snd (roundRobin_calls NewRoundRobin eps j)"
  have cj: "rr_c ?rr = of_nat j"
    by (simp add: roundRobin_calls_nonempty[OF assms(1) n64] NewRoundRobin_def)
  have uj: "unat (of_nat j :: 64 word) = j"
    using j64 by (simp add: unat_of_nat)
  have call: "fst (roundRobin_Endpoint ?rr (eps, None)) =
      Returned (Some (eps ! (j mod length eps)), None)"
    using cj uj by (simp add: roundRobin_Endpoint_nonempty[OF assms(1) n64])
  have first: "fst (roundRobin_Endpoint NewRoundRobin (eps, None)) =
      Returned (Some (eps ! 0), None)"
    using assms(1)
    by (simp add: roundRobin_Endpoint_nonempty[OF assms(1) n64] NewRoundRobin_def)
  have "fst (roundRobin_calls ?rr eps (length eps)) =
      map (\<lambda>i. Returned (Some (eps ! (unat (of_nat j + of_nat i :: 64 word) mod length eps)), None))
        [0..<length eps]"
    using cj by (simp add: roundRobin_calls_nonempty[OF assms(1) n64, of ?rr])
  also have "\<dots> = map (\<lambda>i. Returned (Some (eps ! ((j + i) mod length eps)), None)) [0..<length eps]"
  proof (rule map_cong[OF refl])
    fix i assume "i \<in> set [0..<length eps]"
    then have "j + i < 2 ^ 64" using assms(3) by simp
    then have "unat (of_nat j + of_nat i :: 64 word) = j + i"
      by (simp add: unat_of_nat flip: of_nat_add)
    then show "Returned (Some (eps ! (unat (of_nat j + of_nat i :: 64 word) mod length eps)), None) =
        Returned (Some (eps ! ((j + i) mod length eps)), None)"
      by simp
  qed
  also have "\<dots> = map (\<lambda>x. Returned (Some x, None))
      (map (\<lambda>i. eps ! ((j + i) mod length eps)) [0..<length eps])"
    by (simp add: comp_def)
  also have "\<dots> = map (\<lambda>x. Returned (Some x, None)) (rotate j eps)"
    by (simp only: rotate_nth_map[OF assms(1)])
  finally show ?thesis using cj call first by simp
qed

theorem roundRobin_rotation_witness:
  "0 < length [10, 11, 12 :: nat] \<and> length [10, 11, 12 :: nat] < 2 ^ 63 \<and>
   4 + length [10, 11, 12 :: nat] \<le> 2 ^ 64 \<and>
   fst (roundRobin_calls (snd (roundRobin_calls NewRoundRobin [10, 11, 12 :: nat] 4))
     [10, 11, 12 :: nat] (length [10, 11, 12 :: nat])) =
     [Returned (Some 11, None), Returned (Some 12, None), Returned (Some 10, None)]"
proof -
  have r: "rotate 4 [10, 11, 12 :: nat] = [11, 12, 10]"
    by code_simp
  show ?thesis
    using roundRobin_rotation [of "[10, 11, 12 :: nat]" 4] r by simp
qed

subsection \<open>Retry and the deadline\<close>

text \<open>
  Claim C9: when the attempts made before the shared deadline all fail and the
  continuation goes on after each, and the deadline expires before the next attempt is
  done (the deadline has passed, or that attempt blocks, or it is done too late), then the
  retrying operation returns, and what it returns is the deadline's own error,
  DeadlineExceeded, not a RetryError. This holds for the fixed-count variant and for the
  callback variant.
\<close>

theorem Retry_deadline_exceeded:
  assumes "expiresDuring attempt (sharedDeadline timeout callerDeadline now)
             (now + int (sum_list (map fst fails))) (1 + length fails)"
  shows "(failsBefore attempt (maxRetries maxAttempts)
            (sharedDeadline timeout callerDeadline now) now 1 fails \<longrightarrow>
          Retry maxAttempts timeout attempt callerDeadline now = Some (Inl DeadlineExceeded)) \<and>
         (failsBefore attempt (case cb of None \<Rightarrow> alwaysRetry | Some f \<Rightarrow> f)
            (sharedDeadline timeout callerDeadline now) now 1 fails \<longrightarrow>
          RetryWithCallback timeout attempt cb callerDeadline now =
            Some (Inl DeadlineExceeded))"
  using retry_loop_expires[OF _ assms, of _ "[]"]
  by (simp add: Retry_def RetryWithCallback_def)

theorem Retry_deadline_exceeded_witness:
  "expiresDuring exAttempt (sharedDeadline 10 None 0)
     (0 + int (sum_list (map fst [(3 :: nat, ErrorString ''error one'')])))
     (1 + length [(3 :: nat, ErrorString ''error one'')]) \<and>
   failsBefore exAttempt (maxRetries 999) (sharedDeadline 10 None 0) 0 1
     [(3, ErrorString ''error one'')] \<and>
   Retry 999 10 exAttempt None 0 = Some (Inl DeadlineExceeded) \<and>
   failsBefore exAttempt alwaysRetry (sharedDeadline 10 None 0) 0 1
     [(3, ErrorString ''error one'')] \<and>
   RetryWithCallback 10 exAttempt None None 0 = Some (Inl DeadlineExceeded)"
  using Retry_deadline_exceeded [of exAttempt 10 None 0 "[(3, ErrorString ''error one'')]" 999 None]
  by (simp add: exAttempt_def maxRetries_def alwaysRetry_def sharedDeadline_def
      expiresDuring_def)

end
